theory Spec2Isabelle
  imports Main
begin

section \<open>Data model of the service pages\<close>

text \<open>
  The two route components read a service object fetched from the API. Only the
  properties they read are modelled. A property that may be \<open>null\<close> or
  \<open>undefined\<close> at run time is an \<open>option\<close>; \<open>None\<close> stands for both, since
  the code reads them only through \<open>??\<close>, \<open>?.\<close> and truthiness tests.
\<close>

datatype change_type = UPDATE | DELETE | ADD

text \<open>An item of \<open>service.env_variables\<close>: \<open>{id, key, value}\<close>.\<close>

record env_variable =
  env_id :: string
  env_key :: string
  env_value :: string

text \<open>
  The \<open>new_value\<close> and \<open>old_value\<close> of a change are JSON objects that the code
  casts without a check: to \<open>{key, value}\<close> for the field \<open>env_variables\<close>, to
  \<open>Pick<DockerService, "image" | "credentials">\<close> for the field \<open>source\<close>. The
  object is modelled by the three properties the code reads; a property the object
  does not have reads as \<open>undefined\<close>, here \<open>None\<close>.
\<close>

record json_object =
  prop_key :: "string option"
  prop_value :: "string option"
  prop_image :: "string option"

text \<open>An item of \<open>service.unapplied_changes\<close>.\<close>

record change =
  ch_id :: string
  ch_type :: change_type
  ch_field :: string
  item_id :: "string option"
  new_value :: "json_object option"
  old_value :: "json_object option"

record service =
  service_image :: "string option"
  env_variables :: "env_variable list option"
  unapplied_changes :: "change list"

text \<open>The type \<open>EnvVariableUI\<close> of the env-variables page.\<close>

record EnvVariableUI =
  change_id :: "string option"
  ui_id :: "string option"
  name :: "string option"
  ui_value :: "string option"
  change_type :: "change_type option"

text \<open>Reading a property of \<open>null\<close> or \<open>undefined\<close> throws.\<close>

datatype error = TypeError

section \<open>The JavaScript \<open>Map\<close>\<close>

text \<open>
  A \<open>Map\<close> iterates in insertion order, and \<open>set\<close> on a key that is already
  present replaces the value where it stands. It is an association list, and
  \<open>map_set\<close> is \<open>Map.prototype.set\<close>.
\<close>

fun map_set :: "'k \<Rightarrow> 'v \<Rightarrow> ('k \<times> 'v) list \<Rightarrow> ('k \<times> 'v) list" where
  "map_set k v [] = [(k, v)]"
| "map_set k v ((k', v') # m) =
     (if k' = k then (k, v) # m else (k', v') # map_set k v m)"

text \<open>\<open>a ?? b\<close>\<close>

definition nullish :: "'a option \<Rightarrow> 'a option \<Rightarrow> 'a option" where
  "nullish a b = (case a of Some x \<Rightarrow> Some x | None \<Rightarrow> b)"

section \<open>The env-variables page: the merged view\<close>

text \<open>
  \<open>ServiceEnvVariablesPage\<close>, lines 69 to 91. The first loop enters the committed
  variables of the service.
\<close>

definition committed_entry :: "env_variable \<Rightarrow> EnvVariableUI" where
  "committed_entry env =
     \<lparr>change_id = None, ui_id = Some (env_id env), name = Some (env_key env),
      ui_value = Some (env_value env), change_type = None\<rparr>"

fun set_committed ::
  "(string \<times> EnvVariableUI) list \<Rightarrow> env_variable list \<Rightarrow> (string \<times> EnvVariableUI) list" where
  "set_committed m [] = m"
| "set_committed m (env # envs) =
     set_committed (map_set (env_id env) (committed_entry env) m) envs"

text \<open>
  The second loop enters the changes of the field \<open>env_variables\<close>, each under
  \<open>ch.item_id ?? ch.id\<close>. \<open>keyValue\<close> is \<open>ch.new_value ?? ch.old_value\<close>; when both
  are missing, \<open>keyValue.key\<close> throws a \<open>TypeError\<close> and the page renders nothing.
\<close>

definition change_key :: "change \<Rightarrow> string" where
  "change_key ch = (case item_id ch of Some i \<Rightarrow> i | None \<Rightarrow> ch_id ch)"

definition change_entry :: "change \<Rightarrow> json_object \<Rightarrow> EnvVariableUI" where
  "change_entry ch keyValue =
     \<lparr>change_id = Some (ch_id ch), ui_id = item_id ch, name = prop_key keyValue,
      ui_value = prop_value keyValue, change_type = Some (ch_type ch)\<rparr>"

fun set_changes ::
  "(string \<times> EnvVariableUI) list \<Rightarrow> change list \<Rightarrow> error + (string \<times> EnvVariableUI) list" where
  "set_changes m [] = Inr m"
| "set_changes m (ch # chs) =
     (case nullish (new_value ch) (old_value ch) of
        None \<Rightarrow> Inl TypeError
      | Some keyValue \<Rightarrow>
          set_changes (map_set (change_key ch) (change_entry ch keyValue) m) chs)"

definition env_changes :: "service \<Rightarrow> change list" where
  "env_changes service =
     filter (\<lambda>ch. ch_field ch = ''env_variables'') (unapplied_changes service)"

definition committed_envs :: "service \<Rightarrow> env_variable list" where
  "committed_envs service = (case env_variables service of Some envs \<Rightarrow> envs | None \<Rightarrow> [])"

definition ServiceEnvVariablesPage ::
  "service \<Rightarrow> error + (string \<times> EnvVariableUI) list" where
  "ServiceEnvVariablesPage service =
     set_changes (set_committed [] (committed_envs service)) (env_changes service)"

text \<open>
  The rows the page shows: one \<open>EnVariableRow\<close> for each entry of the map, in the
  order of the map (\<open>[...env_variables.entries()].map(([, env]) => ...)\<close>).
\<close>

definition rendered_rows :: "service \<Rightarrow> error + EnvVariableUI list" where
  "rendered_rows service =
     (case ServiceEnvVariablesPage service of
        Inl e \<Rightarrow> Inl e
      | Inr m \<Rightarrow> Inr (map snd m))"

section \<open>The service layout: the displayed image and the deploy form\<close>

text \<open>
  \<open>ServiceDetailsLayout\<close>, lines 95 to 104. \<open>resolvedImage\<close> is the initial value
  of \<open>serviceImage\<close>: \<open>service.image\<close>, or else the \<open>image\<close> of the \<open>new_value\<close>
  of the first change of the field \<open>source\<close> (\<open>[0]?.new_value\<close> and \<open>?.image\<close>
  give \<open>undefined\<close> when there is no such change or no such value).
\<close>

definition resolvedImage :: "service \<Rightarrow> string option" where
  "resolvedImage service =
     nullish (service_image service)
       (case filter (\<lambda>change. ch_field change = ''source'') (unapplied_changes service) of
          [] \<Rightarrow> None
        | change # _ \<Rightarrow>
            (case new_value change of None \<Rightarrow> None | Some v \<Rightarrow> prop_image v))"

text \<open>
  \<open>if (serviceImage && !serviceImage.includes(":")) serviceImage += ":latest"\<close>.
  The empty string is falsy, as \<open>undefined\<close> is.
\<close>

definition serviceImage :: "service \<Rightarrow> string option" where
  "serviceImage service =
     (case resolvedImage service of
        None \<Rightarrow> None
      | Some img \<Rightarrow>
          if img \<noteq> [] \<and> \<not> (CHR '':'' \<in> set img) then Some (img @ '':latest'')
          else Some img)"

text \<open>
  \<open>DeployServiceForm\<close>, lines 286 to 324: the children of the outer \<open>div\<close>, in
  order. \<open>pluralize\<close> comes from \<open>~/utils\<close> and is a parameter; the state of the
  fetcher is an input of the render.
\<close>

datatype fetcher_state = idle | loading | submitting

datatype element =
  WarningButton (count: nat) (label: string)
| DeployForm (form_method: string) (form_action: string) (isPending: bool) (submit_label: string)

definition DeployServiceForm ::
  "(string \<Rightarrow> nat \<Rightarrow> string) \<Rightarrow> fetcher_state \<Rightarrow> service \<Rightarrow> element list" where
  "DeployServiceForm pluralize fetcher service =
     (let isDeploying = (fetcher \<noteq> idle) in
        (if length (unapplied_changes service) > 0
         then [WarningButton (length (unapplied_changes service))
                 (pluralize ''unapplied change'' (length (unapplied_changes service)))]
         else [])
        @ [DeployForm ''post'' ''./deploy-service'' isDeploying
             (if isDeploying then ''Deploying'' else ''Deploy now'')])"

section \<open>The client actions of the env-variables page\<close>

text \<open>
  \<open>formData.get(k)\<close> is \<open>null\<close> for a missing entry; the actions read every entry
  as \<open>(formData.get(k) ?? "").toString()\<close>.
\<close>

type_synonym form_data = "string \<rightharpoonup> string"

definition form_get :: "form_data \<Rightarrow> string \<Rightarrow> string" where
  "form_get formData k = (case formData k of Some v \<Rightarrow> v | None \<Rightarrow> [])"

record user_data =
  ud_key :: string
  ud_value :: string

text \<open>
  The body of a request to \<open>request-service-changes\<close>. A property the body literal
  does not have is \<open>None\<close>.
\<close>

record change_request =
  req_type :: change_type
  req_field :: string
  req_item_id :: "string option"
  req_new_value :: "user_data option"

datatype api_call =
  HTTP_PUT string string change_request
| HTTP_DELETE string string string

text \<open>
  The answer of the API client, \<open>{error, data}\<close>. An error carries the list
  \<open>error.errors\<close>, of which the actions read each \<open>detail\<close>.
\<close>

record api_error =
  details :: "string list"

record 'd api_response =
  resp_error :: "api_error option"
  resp_data :: "'d option"

datatype toast =
  ToastLoading string
| ToastError string string
| ToastSuccess string string

text \<open>
  What an action does besides returning: the requests it sends, the queries of the
  cache it invalidates (each named by project and service slug), the toasts it shows.
\<close>

record client_state =
  requests :: "api_call list"
  invalidated :: "(string \<times> string) list"
  toasts :: "toast list"

datatype 'd action_result =
  Errors api_error user_data
| Data 'd
| Undefined

definition userData_of :: "form_data \<Rightarrow> user_data" where
  "userData_of formData =
     \<lparr>ud_key = form_get formData ''key'', ud_value = form_get formData ''value''\<rparr>"

definition send ::
  "(api_call \<Rightarrow> 'd api_response) \<Rightarrow> api_call \<Rightarrow> client_state
     \<Rightarrow> 'd api_response \<times> client_state" where
  "send api call st = (api call, st\<lparr>requests := requests st @ [call]\<rparr>)"

definition invalidateQueries :: "string \<Rightarrow> string \<Rightarrow> client_state \<Rightarrow> client_state" where
  "invalidateQueries project_slug service_slug st =
     st\<lparr>invalidated := invalidated st @ [(project_slug, service_slug)]\<rparr>"

definition show_toast :: "toast \<Rightarrow> client_state \<Rightarrow> client_state" where
  "show_toast t st = st\<lparr>toasts := toasts st @ [t]\<rparr>"

text \<open>\<open>error.errors.map((err) => err.detail).join(" ")\<close>\<close>

fun join_space :: "string list \<Rightarrow> string" where
  "join_space [] = []"
| "join_space [d] = d"
| "join_space (d # ds) = d @ '' '' @ join_space ds"

definition createEnvVariable ::
  "(api_call \<Rightarrow> 'd api_response) \<Rightarrow> string \<Rightarrow> string \<Rightarrow> form_data \<Rightarrow> client_state
     \<Rightarrow> 'd action_result \<times> client_state" where
  "createEnvVariable api project_slug service_slug formData st =
     (let userData = userData_of formData;
          (resp, st1) = send api (HTTP_PUT project_slug service_slug
             \<lparr>req_type = ADD, req_field = ''env_variables'', req_item_id = None,
              req_new_value = Some userData\<rparr>) st
      in case resp_error resp of
           Some errors \<Rightarrow> (Errors errors userData, st1)
         | None \<Rightarrow>
             (case resp_data resp of
                Some data \<Rightarrow> (Data data, invalidateQueries project_slug service_slug st1)
              | None \<Rightarrow> (Undefined, st1)))"

definition updateEnvVariable ::
  "(api_call \<Rightarrow> 'd api_response) \<Rightarrow> string \<Rightarrow> string \<Rightarrow> form_data \<Rightarrow> client_state
     \<Rightarrow> 'd action_result \<times> client_state" where
  "updateEnvVariable api project_slug service_slug formData st =
     (let userData = userData_of formData;
          (resp, st1) = send api (HTTP_PUT project_slug service_slug
             \<lparr>req_type = UPDATE, req_field = ''env_variables'',
              req_item_id = Some (form_get formData ''item_id''),
              req_new_value = Some userData\<rparr>) st
      in case resp_error resp of
           Some errors \<Rightarrow> (Errors errors userData, st1)
         | None \<Rightarrow>
             (case resp_data resp of
                Some data \<Rightarrow> (Data data, invalidateQueries project_slug service_slug st1)
              | None \<Rightarrow> (Undefined, st1)))"

definition deleteEnvVariable ::
  "(api_call \<Rightarrow> 'd api_response) \<Rightarrow> string \<Rightarrow> string \<Rightarrow> form_data \<Rightarrow> client_state
     \<Rightarrow> 'd action_result \<times> client_state" where
  "deleteEnvVariable api project_slug service_slug formData st =
     (let st0 = show_toast (ToastLoading ''Sending change request...'') st;
          (resp, st1) = send api (HTTP_PUT project_slug service_slug
             \<lparr>req_type = DELETE, req_field = ''env_variables'',
              req_item_id = Some (form_get formData ''item_id''),
              req_new_value = None\<rparr>) st0
      in case resp_error resp of
           Some error \<Rightarrow>
             (Undefined, show_toast (ToastError ''Error'' (join_space (details error))) st1)
         | None \<Rightarrow>
             (Undefined,
              show_toast (ToastSuccess ''Success'' ''Done'')
                (invalidateQueries project_slug service_slug st1)))"

definition cancelEnvVariable ::
  "(api_call \<Rightarrow> 'd api_response) \<Rightarrow> string \<Rightarrow> string \<Rightarrow> form_data \<Rightarrow> client_state
     \<Rightarrow> 'd action_result \<times> client_state" where
  "cancelEnvVariable api project_slug service_slug formData st =
     (let st0 = show_toast (ToastLoading ''Cancelling env variable change...'') st;
          (resp, st1) = send api (HTTP_DELETE project_slug service_slug
             (form_get formData ''change_id'')) st0
      in case resp_error resp of
           Some error \<Rightarrow>
             (Undefined, show_toast (ToastError ''Error'' (join_space (details error))) st1)
         | None \<Rightarrow>
             (Undefined,
              show_toast (ToastSuccess ''Success'' ''Done'')
                (invalidateQueries project_slug service_slug st1)))"

section \<open>Example inputs\<close>

text \<open>
  Short names for the concrete values at which the theorems below are instantiated:
  a payload \<open>{key, value}\<close>, a change of the field \<open>env_variables\<close>, a service with
  the image \<open>nginx\<close>, and the committed variable \<open>{id: "e1", key: "A", value: "1"}\<close>.
\<close>

abbreviation (input) key_value :: "string \<Rightarrow> string \<Rightarrow> json_object" where
  "key_value k v \<equiv> \<lparr>prop_key = Some k, prop_value = Some v, prop_image = None\<rparr>"

abbreviation (input) env_change ::
  "string \<Rightarrow> change_type \<Rightarrow> string option \<Rightarrow> json_object option \<Rightarrow> json_object option \<Rightarrow> change" where
  "env_change c t i nv ov \<equiv>
     \<lparr>ch_id = c, ch_type = t, ch_field = ''env_variables'', item_id = i,
      new_value = nv, old_value = ov\<rparr>"

abbreviation (input) example_service :: "env_variable list \<Rightarrow> change list \<Rightarrow> service" where
  "example_service envs chs \<equiv>
     \<lparr>service_image = Some ''nginx'', env_variables = Some envs, unapplied_changes = chs\<rparr>"

abbreviation (input) env_A :: env_variable where
  "env_A \<equiv> \<lparr>env_id = ''e1'', env_key = ''A'', env_value = ''1''\<rparr>"

section \<open>Order of first appearance\<close>

text \<open>
  The keys of a \<open>Map\<close> stand in the order in which they were first set.
  \<open>first_occurrences\<close> keeps of each element of a list its first occurrence.
\<close>

fun first_occurrences :: "'a list \<Rightarrow> 'a list" where
  "first_occurrences [] = []"
| "first_occurrences (x # xs) = x # first_occurrences (filter (\<lambda>y. y \<noteq> x) xs)"

section \<open>Properties of the \<open>Map\<close> and of the two loops\<close>


lemma map_of_map_set: "map_of (map_set k v m) = (map_of m)(k \<mapsto> v)"
  by (induction m) (auto simp: fun_eq_iff)

lemma keys_map_set:
  "map fst (map_set k v m) = (if k \<in> set (map fst m) then map fst m else map fst m @ [k])"
  by (induction m) force+

lemma distinct_map_set: "distinct (map fst m) \<Longrightarrow> distinct (map fst (map_set k v m))"
  by (simp add: keys_map_set)

lemma set_map_set: "set (map_set k v m) \<subseteq> insert (k, v) (set m)"
  by (induction m) (auto split: if_splits)

lemma map_set_fresh: "k \<notin> set (map fst m) \<Longrightarrow> map_set k v m = m @ [(k, v)]"
  by (induction m) auto

lemma map_set_append_last: "k \<notin> set (map fst m) \<Longrightarrow> map_set k v (m @ [(k, w)]) = m @ [(k, v)]"
  by (induction m) auto

lemma only_entry:
  "distinct (map fst m) \<Longrightarrow> map_of m k = Some v \<Longrightarrow> filter (\<lambda>p. fst p = k) m = [(k, v)]"
proof (induction m)
  case Nil
  then show ?case by simp
next
  case (Cons p m)
  show ?case
  proof (cases "fst p = k")
    case True
    with Cons.prems have "p = (k, v)" by (cases p) auto
    moreover from True Cons.prems(1) have "k \<notin> fst ` set m" by auto
    then have "filter (\<lambda>q. fst q = k) m = []"
      by (auto simp: filter_empty_conv)
    ultimately show ?thesis by simp
  next
    case False
    with Cons show ?thesis by (cases p) auto
  qed
qed

lemma distinct_set_committed:
  "distinct (map fst m) \<Longrightarrow> distinct (map fst (set_committed m envs))"
  by (induction envs arbitrary: m) (auto simp: distinct_map_set)

lemma keys_set_committed:
  "map fst (set_committed m envs) =
     map fst m @ first_occurrences (filter (\<lambda>k. k \<notin> set (map fst m)) (map env_id envs))"
proof (induction envs arbitrary: m)
  case Nil
  then show ?case by simp
next
  case (Cons env envs)
  show ?case
  proof (cases "env_id env \<in> set (map fst m)")
    case True
    then show ?thesis by (simp add: Cons.IH keys_map_set)
  next
    case False
    have "filter (\<lambda>k. k \<notin> set (map fst m @ [env_id env])) (map env_id envs) =
          filter (\<lambda>y. y \<noteq> env_id env) (filter (\<lambda>k. k \<notin> set (map fst m)) (map env_id envs))"
      by (auto intro: filter_cong)
    with False show ?thesis by (simp add: Cons.IH keys_map_set)
  qed
qed

lemma keys_set_changes:
  "set_changes m chs = Inr m' \<Longrightarrow>
   map fst m' =
     map fst m @ first_occurrences (filter (\<lambda>k. k \<notin> set (map fst m)) (map change_key chs))"
proof (induction chs arbitrary: m)
  case Nil
  then show ?case by simp
next
  case (Cons ch chs)
  from Cons.prems obtain kv where
    rest: "set_changes (map_set (change_key ch) (change_entry ch kv) m) chs = Inr m'"
    by (auto split: option.splits)
  show ?case
  proof (cases "change_key ch \<in> set (map fst m)")
    case True
    then show ?thesis using Cons.IH [OF rest] by (simp add: keys_map_set)
  next
    case False
    have "filter (\<lambda>k. k \<notin> set (map fst m @ [change_key ch])) (map change_key chs) =
          filter (\<lambda>y. y \<noteq> change_key ch)
            (filter (\<lambda>k. k \<notin> set (map fst m)) (map change_key chs))"
      by (auto intro: filter_cong)
    with False show ?thesis using Cons.IH [OF rest] by (simp add: keys_map_set)
  qed
qed

lemma first_occurrences_distinct: "distinct xs \<Longrightarrow> first_occurrences xs = xs"
proof (induction xs)
  case Nil
  then show ?case by simp
next
  case (Cons a xs)
  then have "filter (\<lambda>y. y \<noteq> a) xs = xs"
    by (auto intro: filter_True)
  with Cons show ?case by simp
qed

lemma set_changes_append:
  "set_changes m (xs @ ys) =
     (case set_changes m xs of Inl e \<Rightarrow> Inl e | Inr m1 \<Rightarrow> set_changes m1 ys)"
  by (induction xs arbitrary: m) (auto split: option.splits)

lemma set_changes_returns:
  "\<forall>ch\<in>set chs. nullish (new_value ch) (old_value ch) \<noteq> None \<Longrightarrow>
   \<exists>m'. set_changes m chs = Inr m'"
  by (induction chs arbitrary: m) (auto split: option.splits)

lemma set_changes_distinct:
  "set_changes m chs = Inr m' \<Longrightarrow> distinct (map fst m) \<Longrightarrow> distinct (map fst m')"
  by (induction chs arbitrary: m) (auto split: option.splits simp: distinct_map_set)

lemma set_changes_other_key:
  "set_changes m chs = Inr m' \<Longrightarrow> \<forall>d\<in>set chs. change_key d \<noteq> k \<Longrightarrow>
   map_of m' k = map_of m k"
  by (induction chs arbitrary: m) (auto split: option.splits simp: map_of_map_set)

lemma set_changes_entries:
  "set_changes m chs = Inr m' \<Longrightarrow> (k, e) \<in> set m' \<Longrightarrow>
   (k, e) \<in> set m \<or>
   (\<exists>ch\<in>set chs. \<exists>kv. nullish (new_value ch) (old_value ch) = Some kv \<and>
      k = change_key ch \<and> e = change_entry ch kv)"
proof (induction chs arbitrary: m)
  case Nil
  then show ?case by simp
next
  case (Cons ch chs)
  from Cons.prems(1) obtain kv where kv: "nullish (new_value ch) (old_value ch) = Some kv"
    and rest: "set_changes (map_set (change_key ch) (change_entry ch kv) m) chs = Inr m'"
    by (auto split: option.splits)
  from Cons.IH [OF rest Cons.prems(2)] show ?case
  proof
    assume "(k, e) \<in> set (map_set (change_key ch) (change_entry ch kv) m)"
    with set_map_set [of "change_key ch" "change_entry ch kv" m] kv show ?thesis by auto
  next
    assume "\<exists>ch\<in>set chs. \<exists>kv. nullish (new_value ch) (old_value ch) = Some kv \<and>
      k = change_key ch \<and> e = change_entry ch kv"
    then show ?thesis by auto
  qed
qed

lemma set_changes_last_wins:
  assumes "set_changes m (pre @ c # post) = Inr m'"
    and "\<forall>d\<in>set post. change_key d \<noteq> change_key c"
  shows "\<exists>kv. nullish (new_value c) (old_value c) = Some kv \<and>
           map_of m' (change_key c) = Some (change_entry c kv)"
proof -
  from assms(1) obtain m1 where "set_changes m1 (c # post) = Inr m'"
    by (auto simp: set_changes_append split: sum.splits)
  then obtain kv where kv: "nullish (new_value c) (old_value c) = Some kv"
    and rest: "set_changes (map_set (change_key c) (change_entry c kv) m1) post = Inr m'"
    by (auto split: option.splits)
  from set_changes_other_key [OF rest assms(2)] kv show ?thesis
    by (simp add: map_of_map_set)
qed

lemma dom_map_set: "fst ` set (map_set k v m) = insert k (fst ` set m)"
proof -
  have "set (map fst (map_set k v m)) = insert k (set (map fst m))"
    unfolding keys_map_set by (cases "k \<in> set (map fst m)") auto
  then show ?thesis by simp
qed

lemma set_committed_keys_set:
  "fst ` set (set_committed m envs) = fst ` set m \<union> env_id ` set envs"
  by (induction envs arbitrary: m) (simp_all add: dom_map_set)

lemma set_changes_keys_set:
  "set_changes m chs = Inr m' \<Longrightarrow>
   fst ` set m' = fst ` set m \<union> change_key ` set chs"
proof (induction chs arbitrary: m)
  case Nil
  then show ?case by simp
next
  case (Cons ch chs)
  from Cons.prems obtain kv where
    rest: "set_changes (map_set (change_key ch) (change_entry ch kv) m) chs = Inr m'"
    by (auto split: option.splits)
  from Cons.IH [OF rest] show ?case by (simp add: dom_map_set)
qed

section \<open>Properties of the merged view\<close>

lemmas page_eval = ServiceEnvVariablesPage_def rendered_rows_def committed_envs_def
  env_changes_def nullish_def change_key_def change_entry_def committed_entry_def

lemma page_returns:
  "\<forall>c\<in>set (env_changes s). nullish (new_value c) (old_value c) \<noteq> None \<Longrightarrow>
   \<exists>m. ServiceEnvVariablesPage s = Inr m"
  unfolding ServiceEnvVariablesPage_def by (rule set_changes_returns)

lemma page_distinct: "ServiceEnvVariablesPage s = Inr m \<Longrightarrow> distinct (map fst m)"
  unfolding ServiceEnvVariablesPage_def
  using set_changes_distinct [of "set_committed [] (committed_envs s)" "env_changes s" m]
    distinct_set_committed [of "[]" "committed_envs s"]
  by simp

lemma page_last_wins:
  assumes "ServiceEnvVariablesPage s = Inr m"
    and "env_changes s = pre @ c # post"
    and "\<forall>d\<in>set post. change_key d \<noteq> change_key c"
  shows "\<exists>kv. nullish (new_value c) (old_value c) = Some kv \<and>
           filter (\<lambda>p. fst p = change_key c) m = [(change_key c, change_entry c kv)]"
proof -
  from assms(1,2) have
    "set_changes (set_committed [] (committed_envs s)) (pre @ c # post) = Inr m"
    by (simp add: ServiceEnvVariablesPage_def)
  from set_changes_last_wins [OF this assms(3)] obtain kv where
    kv: "nullish (new_value c) (old_value c) = Some kv"
    and look: "map_of m (change_key c) = Some (change_entry c kv)"
    by blast
  from only_entry [OF page_distinct [OF assms(1)] look] kv show ?thesis by blast
qed

lemma rows_come_from_changes:
  assumes "ServiceEnvVariablesPage s = Inr m"
    and "(k, e) \<in> set m" and "change_id e = Some cid"
  shows "\<exists>ch\<in>set (unapplied_changes s).
           ch_field ch = ''env_variables'' \<and> ch_id ch = cid \<and>
           change_type e = Some (ch_type ch) \<and>
           (case new_value ch of
              Some nv \<Rightarrow> name e = prop_key nv \<and> ui_value e = prop_value nv
            | None \<Rightarrow>
                (\<exists>ov. old_value ch = Some ov \<and>
                   name e = prop_key ov \<and> ui_value e = prop_value ov))"
proof -
  have committed: "\<And>k e m envs. (k, e) \<in> set (set_committed m envs) \<Longrightarrow>
      (k, e) \<in> set m \<or> change_id e = None"
  proof -
    fix k e m envs
    show "(k, e) \<in> set (set_committed m envs) \<Longrightarrow> (k, e) \<in> set m \<or> change_id e = None"
    proof (induction envs arbitrary: m)
      case Nil
      then show ?case by simp
    next
      case (Cons env envs)
      from Cons.IH [of "map_set (env_id env) (committed_entry env) m"] Cons.prems
        set_map_set [of "env_id env" "committed_entry env" m]
      show ?case by (auto simp: committed_entry_def)
    qed
  qed
  from assms(1) have
    "set_changes (set_committed [] (committed_envs s)) (env_changes s) = Inr m"
    by (simp add: ServiceEnvVariablesPage_def)
  from set_changes_entries [OF this assms(2)] committed [of k e "[]" "committed_envs s"]
    assms(3)
  obtain ch kv where ch: "ch \<in> set (env_changes s)"
    and kv: "nullish (new_value ch) (old_value ch) = Some kv"
    and e: "e = change_entry ch kv"
    by auto
  from ch have "ch \<in> set (unapplied_changes s)" "ch_field ch = ''env_variables''"
    by (simp_all add: env_changes_def)
  moreover from e assms(3) have "ch_id ch = cid" by (simp add: change_entry_def)
  moreover from e have "change_type e = Some (ch_type ch)" by (simp add: change_entry_def)
  moreover from kv e have "case new_value ch of
              Some nv \<Rightarrow> name e = prop_key nv \<and> ui_value e = prop_value nv
            | None \<Rightarrow>
                (\<exists>ov. old_value ch = Some ov \<and>
                   name e = prop_key ov \<and> ui_value e = prop_value ov)"
    by (auto simp: nullish_def change_entry_def split: option.splits)
  ultimately show ?thesis by blast
qed

lemma filter_find:
  "(case filter P xs of [] \<Rightarrow> a | x # _ \<Rightarrow> f x) =
   (case find P xs of None \<Rightarrow> a | Some x \<Rightarrow> f x)"
  by (induction xs) auto

lemmas action_defs = createEnvVariable_def updateEnvVariable_def deleteEnvVariable_def
  cancelEnvVariable_def send_def invalidateQueries_def show_toast_def

section \<open>The claims\<close>

subsection \<open>Items with a pending DELETE\<close>

text \<open>
  C1, as amended. An item whose last pending change is a DELETE is not left out of
  the merged view: when every change of the field \<open>env_variables\<close> has a payload (so
  that the page renders), the map has exactly one entry under the item's id, and that
  entry carries the id of the DELETE, its payload and the change type \<open>DELETE\<close>. The
  row is shown as a pending removal.
\<close>

theorem deleted_item_stays_marked:
  assumes "env_changes s = pre @ d # post"
    and "ch_type d = DELETE" and "item_id d = Some x"
    and "\<forall>c\<in>set post. change_key c \<noteq> x"
    and "\<forall>c\<in>set (env_changes s). nullish (new_value c) (old_value c) \<noteq> None"
  shows "\<exists>m kv. ServiceEnvVariablesPage s = Inr m \<and>
           rendered_rows s = Inr (map snd m) \<and>
           nullish (new_value d) (old_value d) = Some kv \<and>
           filter (\<lambda>p. fst p = x) m =
             [(x, \<lparr>change_id = Some (ch_id d), ui_id = Some x, name = prop_key kv,
                   ui_value = prop_value kv, change_type = Some DELETE\<rparr>)]"
proof -
  from page_returns [OF assms(5)] obtain m where m: "ServiceEnvVariablesPage s = Inr m" ..
  then have rows: "rendered_rows s = Inr (map snd m)" by (simp add: rendered_rows_def)
  from assms(3) have key: "change_key d = x" by (simp add: change_key_def)
  with assms(4) have "\<forall>c\<in>set post. change_key c \<noteq> change_key d" by simp
  from page_last_wins [OF m assms(1) this] key assms(2,3) m rows show ?thesis
    by (auto simp: change_entry_def)
qed

text \<open>
  The statement that such an item is omitted fails: with the committed variable
  \<open>e1\<close> and a single pending DELETE of \<open>e1\<close>, the map and the rendered rows hold
  the entry for \<open>e1\<close>, marked \<open>DELETE\<close>.
\<close>

theorem pending_delete_counterexample:
  "ServiceEnvVariablesPage
     (example_service [env_A]
        [env_change ''c1'' DELETE (Some ''e1'') None (Some (key_value ''A'' ''1''))]) =
   Inr [(''e1'', \<lparr>change_id = Some ''c1'', ui_id = Some ''e1'', name = Some ''A'',
                  ui_value = Some ''1'', change_type = Some DELETE\<rparr>)] \<and>
   rendered_rows
     (example_service [env_A]
        [env_change ''c1'' DELETE (Some ''e1'') None (Some (key_value ''A'' ''1''))]) =
   Inr [\<lparr>change_id = Some ''c1'', ui_id = Some ''e1'', name = Some ''A'',
         ui_value = Some ''1'', change_type = Some DELETE\<rparr>]"
  by (simp add: page_eval)

theorem deleted_item_stays_marked_witness:
  "\<exists>m kv. ServiceEnvVariablesPage
     (example_service [env_A]
        [env_change ''c1'' UPDATE (Some ''e1'') (Some (key_value ''A'' ''2'')) (Some (key_value ''A'' ''1'')),
         env_change ''c2'' DELETE (Some ''e1'') None (Some (key_value ''A'' ''1''))]) = Inr m \<and>
     rendered_rows
     (example_service [env_A]
        [env_change ''c1'' UPDATE (Some ''e1'') (Some (key_value ''A'' ''2'')) (Some (key_value ''A'' ''1'')),
         env_change ''c2'' DELETE (Some ''e1'') None (Some (key_value ''A'' ''1''))]) =
       Inr (map snd m) \<and>
     nullish None (Some (key_value ''A'' ''1'')) = Some kv \<and>
     filter (\<lambda>p. fst p = ''e1'') m =
       [(''e1'', \<lparr>change_id = Some ''c2'', ui_id = Some ''e1'', name = prop_key kv,
                   ui_value = prop_value kv, change_type = Some DELETE\<rparr>)]"
  using deleted_item_stays_marked
    [of "example_service [env_A]
        [env_change ''c1'' UPDATE (Some ''e1'') (Some (key_value ''A'' ''2'')) (Some (key_value ''A'' ''1'')),
         env_change ''c2'' DELETE (Some ''e1'') None (Some (key_value ''A'' ''1''))]"
      "[env_change ''c1'' UPDATE (Some ''e1'') (Some (key_value ''A'' ''2'')) (Some (key_value ''A'' ''1''))]"
      "env_change ''c2'' DELETE (Some ''e1'') None (Some (key_value ''A'' ''1''))"
      "[]" "''e1''"]
  by (simp add: env_changes_def nullish_def)

subsection \<open>ADD followed by DELETE of the same item\<close>

text \<open>
  C2, as amended. When an ADD and a later DELETE of the same item id \<open>x\<close> end the
  queue, \<open>x\<close> is not a committed id and no other change is filed under \<open>x\<close>, the
  merged view is the merged view of the same committed configuration without the two
  changes, followed by one entry for \<open>x\<close> that carries the DELETE.
\<close>

theorem add_then_delete_leaves_marked_row:
  assumes "committed_envs s' = committed_envs s"
    and "env_changes s' = qs" and "env_changes s = qs @ [a, d]"
    and "ch_type a = ADD" and "item_id a = Some x"
    and "ch_type d = DELETE" and "item_id d = Some x"
    and "x \<notin> set (map env_id (committed_envs s))"
    and "\<forall>c\<in>set qs. change_key c \<noteq> x"
    and "\<forall>c\<in>set (env_changes s). nullish (new_value c) (old_value c) \<noteq> None"
  shows "\<exists>m kv. ServiceEnvVariablesPage s' = Inr m \<and>
           nullish (new_value d) (old_value d) = Some kv \<and>
           ServiceEnvVariablesPage s =
             Inr (m @ [(x, \<lparr>change_id = Some (ch_id d), ui_id = Some x, name = prop_key kv,
                             ui_value = prop_value kv, change_type = Some DELETE\<rparr>)])"
proof -
  let ?m0 = "set_committed [] (committed_envs s)"
  from assms(3,10) have "\<forall>c\<in>set qs. nullish (new_value c) (old_value c) \<noteq> None" by simp
  from set_changes_returns [OF this] obtain m where m: "set_changes ?m0 qs = Inr m" by blast
  from assms(3,10) obtain ka kd where
    ka: "nullish (new_value a) (old_value a) = Some ka" and
    kd: "nullish (new_value d) (old_value d) = Some kd"
    by auto
  from assms(5,7) have keys: "change_key a = x" "change_key d = x"
    by (simp_all add: change_key_def)
  from set_changes_keys_set [OF m] assms(8,9) have fresh: "x \<notin> set (map fst m)"
    by (auto simp: set_committed_keys_set)
  have "set_changes m [a, d] =
          Inr (map_set x (change_entry d kd) (map_set x (change_entry a ka) m))"
    by (simp add: ka kd keys)
  also have "\<dots> = Inr (m @ [(x, change_entry d kd)])"
    using fresh by (simp add: map_set_fresh map_set_append_last)
  finally have "ServiceEnvVariablesPage s = Inr (m @ [(x, change_entry d kd)])"
    using m assms(3) by (simp add: ServiceEnvVariablesPage_def set_changes_append)
  moreover have "ServiceEnvVariablesPage s' = Inr m"
    using m assms(1,2) by (simp add: ServiceEnvVariablesPage_def)
  ultimately show ?thesis using kd assms(6,7) by (auto simp: change_entry_def)
qed

text \<open>
  The two changes do not cancel out: with and without them the merged views of the
  same committed configuration differ by the row of the DELETE.
\<close>

theorem add_then_delete_counterexample:
  "ServiceEnvVariablesPage
     (example_service [env_A]
        [env_change ''c1'' ADD (Some ''x'') (Some (key_value ''B'' ''x'')) None,
         env_change ''c2'' DELETE (Some ''x'') None (Some (key_value ''B'' ''x''))]) =
   Inr [(''e1'', \<lparr>change_id = None, ui_id = Some ''e1'', name = Some ''A'',
                  ui_value = Some ''1'', change_type = None\<rparr>),
        (''x'', \<lparr>change_id = Some ''c2'', ui_id = Some ''x'', name = Some ''B'',
                  ui_value = Some ''x'', change_type = Some DELETE\<rparr>)] \<and>
   ServiceEnvVariablesPage (example_service [env_A] []) =
   Inr [(''e1'', \<lparr>change_id = None, ui_id = Some ''e1'', name = Some ''A'',
                  ui_value = Some ''1'', change_type = None\<rparr>)] \<and>
   ServiceEnvVariablesPage
     (example_service [env_A]
        [env_change ''c1'' ADD (Some ''x'') (Some (key_value ''B'' ''x'')) None,
         env_change ''c2'' DELETE (Some ''x'') None (Some (key_value ''B'' ''x''))]) \<noteq>
   ServiceEnvVariablesPage (example_service [env_A] [])"
  by (simp add: page_eval)

theorem add_then_delete_leaves_marked_row_witness:
  "\<exists>m kv. ServiceEnvVariablesPage (example_service [env_A] []) = Inr m \<and>
     nullish None (Some (key_value ''B'' ''x'')) = Some kv \<and>
     ServiceEnvVariablesPage
       (example_service [env_A]
        [env_change ''c1'' ADD (Some ''x'') (Some (key_value ''B'' ''x'')) None,
         env_change ''c2'' DELETE (Some ''x'') None (Some (key_value ''B'' ''x''))]) =
     Inr (m @ [(''x'', \<lparr>change_id = Some ''c2'', ui_id = Some ''x'', name = prop_key kv,
                     ui_value = prop_value kv, change_type = Some DELETE\<rparr>)])"
  using add_then_delete_leaves_marked_row
    [of "example_service [env_A] []"
        "example_service [env_A]
        [env_change ''c1'' ADD (Some ''x'') (Some (key_value ''B'' ''x'')) None,
         env_change ''c2'' DELETE (Some ''x'') None (Some (key_value ''B'' ''x''))]"
        "[]"
        "env_change ''c1'' ADD (Some ''x'') (Some (key_value ''B'' ''x'')) None"
        "env_change ''c2'' DELETE (Some ''x'') None (Some (key_value ''B'' ''x''))"
        "''x''"]
  by (simp add: env_changes_def committed_envs_def nullish_def)

subsection \<open>A later change supersedes an earlier one\<close>



subsection \<open>The order of the merged view\<close>

text \<open>
  C4. With distinct committed ids, the keys of the merged view are the committed ids
  in their committed order, followed by the keys of the changes that are not committed
  ids, in the order of their first change. In particular position \<open>i\<close> of the view
  holds the committed item \<open>i\<close>, whatever changes are pending on it.
\<close>

theorem merged_order:
  assumes "distinct (map env_id (committed_envs s))"
    and "\<forall>c\<in>set (env_changes s). nullish (new_value c) (old_value c) \<noteq> None"
  shows "\<exists>m. ServiceEnvVariablesPage s = Inr m \<and>
           map fst m =
             map env_id (committed_envs s) @
             first_occurrences
               (filter (\<lambda>k. k \<notin> set (map env_id (committed_envs s)))
                  (map change_key (env_changes s))) \<and>
           (\<forall>i<length (committed_envs s). fst (m ! i) = env_id (committed_envs s ! i))"
proof -
  from page_returns [OF assms(2)] obtain m where m: "ServiceEnvVariablesPage s = Inr m" ..
  have k0: "map fst (set_committed [] (committed_envs s)) = map env_id (committed_envs s)"
    using assms(1) by (simp add: keys_set_committed first_occurrences_distinct)
  from m have keys: "map fst m =
      map env_id (committed_envs s) @
      first_occurrences
        (filter (\<lambda>k. k \<notin> set (map env_id (committed_envs s)))
           (map change_key (env_changes s)))"
    unfolding ServiceEnvVariablesPage_def
    using keys_set_changes [of "set_committed [] (committed_envs s)" "env_changes s" m]
    by (simp add: k0)
  have "\<forall>i<length (committed_envs s). fst (m ! i) = env_id (committed_envs s ! i)"
  proof (intro allI impI)
    fix i assume i: "i < length (committed_envs s)"
    from keys have len: "length (committed_envs s) \<le> length m"
      by (metis length_map length_append le_add1)
    with i have "fst (m ! i) = map fst m ! i" by simp
    also have "\<dots> = env_id (committed_envs s ! i)"
      using i by (simp add: keys nth_append)
    finally show "fst (m ! i) = env_id (committed_envs s ! i)" .
  qed
  with m keys show ?thesis by blast
qed

theorem merged_order_witness:
  "\<exists>m. ServiceEnvVariablesPage
     (example_service [env_A, \<lparr>env_id = ''e2'', env_key = ''C'', env_value = ''3''\<rparr>]
        [env_change ''c1'' ADD None (Some (key_value ''B'' ''x'')) None,
         env_change ''c2'' UPDATE (Some ''e1'') (Some (key_value ''A'' ''2'')) (Some (key_value ''A'' ''1'')),
         env_change ''c3'' ADD None (Some (key_value ''D'' ''y'')) None]) = Inr m \<and>
     map fst m = [''e1'', ''e2'', ''c1'', ''c3'']"
  using merged_order
    [of "example_service [env_A, \<lparr>env_id = ''e2'', env_key = ''C'', env_value = ''3''\<rparr>]
        [env_change ''c1'' ADD None (Some (key_value ''B'' ''x'')) None,
         env_change ''c2'' UPDATE (Some ''e1'') (Some (key_value ''A'' ''2'')) (Some (key_value ''A'' ''1'')),
         env_change ''c3'' ADD None (Some (key_value ''D'' ''y'')) None]"]
  by (auto simp: env_changes_def committed_envs_def nullish_def change_key_def)

subsection \<open>Determinism\<close>

text \<open>
  C5. The merged view is a function of the committed variables and the queue of
  unapplied changes alone: two services that agree on both have the same map and the
  same rendered rows, whatever else differs.
\<close>

theorem merge_depends_only_on_its_inputs:
  assumes "env_variables s1 = env_variables s2"
    and "unapplied_changes s1 = unapplied_changes s2"
  shows "ServiceEnvVariablesPage s1 = ServiceEnvVariablesPage s2 \<and>
         rendered_rows s1 = rendered_rows s2"
  using assms
  by (simp add: ServiceEnvVariablesPage_def rendered_rows_def committed_envs_def env_changes_def)

theorem merge_depends_only_on_its_inputs_witness:
  "ServiceEnvVariablesPage
     \<lparr>service_image = Some ''nginx'', env_variables = Some [env_A],
      unapplied_changes = [env_change ''c1'' ADD None (Some (key_value ''B'' ''x'')) None]\<rparr> =
   ServiceEnvVariablesPage
     \<lparr>service_image = None, env_variables = Some [env_A],
      unapplied_changes = [env_change ''c1'' ADD None (Some (key_value ''B'' ''x'')) None]\<rparr>"
  using merge_depends_only_on_its_inputs
    [of "\<lparr>service_image = Some ''nginx'', env_variables = Some [env_A],
      unapplied_changes = [env_change ''c1'' ADD None (Some (key_value ''B'' ''x'')) None]\<rparr>"
     "\<lparr>service_image = None, env_variables = Some [env_A],
      unapplied_changes = [env_change ''c1'' ADD None (Some (key_value ''B'' ''x'')) None]\<rparr>"]
  by simp

subsection \<open>The shape of the requests\<close>

text \<open>
  C6. Each action sends one request. The ADD request of \<open>createEnvVariable\<close> has
  the field and a new value and no item id; the UPDATE request of
  \<open>updateEnvVariable\<close> has an item id and a new value; the DELETE request of
  \<open>deleteEnvVariable\<close> has an item id and no new value.
\<close>

theorem request_shapes:
  "(\<exists>body. requests (snd (createEnvVariable api project_slug service_slug formData st)) =
       requests st @ [HTTP_PUT project_slug service_slug body] \<and>
     req_type body = ADD \<and> req_field body = ''env_variables'' \<and>
     req_item_id body = None \<and>
     req_new_value body =
       Some \<lparr>ud_key = form_get formData ''key'', ud_value = form_get formData ''value''\<rparr>) \<and>
   (\<exists>body. requests (snd (updateEnvVariable api project_slug service_slug formData st)) =
       requests st @ [HTTP_PUT project_slug service_slug body] \<and>
     req_type body = UPDATE \<and> req_field body = ''env_variables'' \<and>
     req_item_id body = Some (form_get formData ''item_id'') \<and>
     req_new_value body =
       Some \<lparr>ud_key = form_get formData ''key'', ud_value = form_get formData ''value''\<rparr>) \<and>
   (\<exists>body. requests (snd (deleteEnvVariable api project_slug service_slug formData st)) =
       requests st @ [HTTP_PUT project_slug service_slug body] \<and>
     req_type body = DELETE \<and> req_field body = ''env_variables'' \<and>
     req_item_id body = Some (form_get formData ''item_id'') \<and>
     req_new_value body = None)"
  by (simp add: action_defs userData_of_def Let_def split: option.splits)

subsection \<open>Errors leave the cache alone\<close>

text \<open>
  C7. When the API answers with an error, \<open>createEnvVariable\<close> and
  \<open>updateEnvVariable\<close> return the error together with the user's input, and neither
  they nor \<open>cancelEnvVariable\<close> (nor \<open>deleteEnvVariable\<close>) invalidate a query of the
  cache.
\<close>

theorem error_leaves_cache_untouched:
  assumes "\<And>call. resp_error (api call) = Some err"
  shows "fst (createEnvVariable api project_slug service_slug formData st) =
           Errors err (userData_of formData) \<and>
         invalidated (snd (createEnvVariable api project_slug service_slug formData st)) =
           invalidated st \<and>
         fst (updateEnvVariable api project_slug service_slug formData st) =
           Errors err (userData_of formData) \<and>
         invalidated (snd (updateEnvVariable api project_slug service_slug formData st)) =
           invalidated st \<and>
         invalidated (snd (cancelEnvVariable api project_slug service_slug formData st)) =
           invalidated st \<and>
         invalidated (snd (deleteEnvVariable api project_slug service_slug formData st)) =
           invalidated st"
  by (simp add: action_defs Let_def assms)

theorem error_leaves_cache_untouched_witness:
  "fst (createEnvVariable
          (\<lambda>call. \<lparr>resp_error = Some \<lparr>details = [''This field may not be blank.'']\<rparr>,
                    resp_data = (None :: unit option)\<rparr>)
          ''proj'' ''web'' [''key'' \<mapsto> '''', ''value'' \<mapsto> ''1'']
          \<lparr>requests = [], invalidated = [], toasts = []\<rparr>) =
     Errors \<lparr>details = [''This field may not be blank.'']\<rparr> \<lparr>ud_key = '''', ud_value = ''1''\<rparr> \<and>
   invalidated (snd (cancelEnvVariable
          (\<lambda>call. \<lparr>resp_error = Some \<lparr>details = [''This field may not be blank.'']\<rparr>,
                    resp_data = (None :: unit option)\<rparr>)
          ''proj'' ''web'' [''change_id'' \<mapsto> ''c1'']
          \<lparr>requests = [], invalidated = [], toasts = []\<rparr>)) = []"
  using error_leaves_cache_untouched
    [of "\<lambda>call. \<lparr>resp_error = Some \<lparr>details = [''This field may not be blank.'']\<rparr>,
                    resp_data = (None :: unit option)\<rparr>"
        "\<lparr>details = [''This field may not be blank.'']\<rparr>"
        "''proj''" "''web''" "[''key'' \<mapsto> '''', ''value'' \<mapsto> ''1'']"
        "\<lparr>requests = [], invalidated = [], toasts = []\<rparr>"]
    error_leaves_cache_untouched
    [of "\<lambda>call. \<lparr>resp_error = Some \<lparr>details = [''This field may not be blank.'']\<rparr>,
                    resp_data = (None :: unit option)\<rparr>"
        "\<lparr>details = [''This field may not be blank.'']\<rparr>"
        "''proj''" "''web''" "[''change_id'' \<mapsto> ''c1'']"
        "\<lparr>requests = [], invalidated = [], toasts = []\<rparr>"]
  by (simp add: userData_of_def form_get_def)

subsection \<open>The deploy form\<close>

text \<open>
  C8. The deploy form is rendered for every service, with the same action and, while
  the fetcher is idle, a submit button that is not pending. The warning is rendered
  exactly when the service has an unapplied change, and its count is the length of the
  queue.
\<close>

theorem deploy_form_always_rendered:
  "DeployForm ''post'' ''./deploy-service'' (fetcher \<noteq> idle)
       (if fetcher \<noteq> idle then ''Deploying'' else ''Deploy now'')
     \<in> set (DeployServiceForm pluralize fetcher service) \<and>
   ((\<exists>n l. WarningButton n l \<in> set (DeployServiceForm pluralize fetcher service)) \<longleftrightarrow>
      unapplied_changes service \<noteq> []) \<and>
   (\<forall>n l. WarningButton n l \<in> set (DeployServiceForm pluralize fetcher service) \<longrightarrow>
      n = length (unapplied_changes service) \<and> l = pluralize ''unapplied change'' n)"
  by (auto simp: DeployServiceForm_def Let_def)

theorem deploy_form_always_rendered_witness:
  "DeployForm ''post'' ''./deploy-service'' False ''Deploy now''
     \<in> set (DeployServiceForm (\<lambda>w n. if n = 1 then w else w @ ''s'') idle
          \<lparr>service_image = Some ''nginx'', env_variables = Some [], unapplied_changes = []\<rparr>) \<and>
   \<not> (\<exists>n l. WarningButton n l
     \<in> set (DeployServiceForm (\<lambda>w n. if n = 1 then w else w @ ''s'') idle
          \<lparr>service_image = Some ''nginx'', env_variables = Some [], unapplied_changes = []\<rparr>))"
  using deploy_form_always_rendered
    [of idle "\<lambda>w n. if n = 1 then w else w @ ''s''"
      "\<lparr>service_image = Some ''nginx'', env_variables = Some [], unapplied_changes = []\<rparr>"]
  by simp

subsection \<open>The displayed image\<close>

text \<open>
  C9, as amended. The image is \<open>service.image\<close> when present, otherwise the image
  of the new value of the first unapplied change of the field \<open>source\<close>. The suffix
  \<open>:latest\<close> is appended when the image is not empty and has no \<open>:\<close>; an empty
  image is displayed as it is.
\<close>

theorem displayed_image:
  "resolvedImage service =
     (case service_image service of
        Some img \<Rightarrow> Some img
      | None \<Rightarrow>
          (case find (\<lambda>change. ch_field change = ''source'') (unapplied_changes service) of
             None \<Rightarrow> None
           | Some change \<Rightarrow>
               (case new_value change of None \<Rightarrow> None | Some v \<Rightarrow> prop_image v))) \<and>
   serviceImage service =
     map_option
       (\<lambda>img. if img \<noteq> [] \<and> CHR '':'' \<notin> set img then img @ '':latest'' else img)
       (resolvedImage service)"
  by (simp add: resolvedImage_def serviceImage_def nullish_def filter_find split: option.splits)

text \<open>
  The empty image has no \<open>:\<close>, and no suffix is appended to it.
\<close>

theorem empty_image_counterexample:
  "resolvedImage \<lparr>service_image = Some '''', env_variables = None, unapplied_changes = []\<rparr> =
     Some '''' \<and>
   CHR '':'' \<notin> set '''' \<and>
   serviceImage \<lparr>service_image = Some '''', env_variables = None, unapplied_changes = []\<rparr> =
     Some ''''"
  by (simp add: resolvedImage_def serviceImage_def nullish_def)

theorem displayed_image_witness:
  "serviceImage
     \<lparr>service_image = None, env_variables = None,
      unapplied_changes =
        [\<lparr>ch_id = ''c1'', ch_type = UPDATE, ch_field = ''source'', item_id = None,
          new_value = Some \<lparr>prop_key = None, prop_value = None, prop_image = Some ''nginx''\<rparr>,
          old_value = None\<rparr>]\<rparr> = Some ''nginx:latest''"
  using displayed_image
    [of "\<lparr>service_image = None, env_variables = None,
      unapplied_changes =
        [\<lparr>ch_id = ''c1'', ch_type = UPDATE, ch_field = ''source'', item_id = None,
          new_value = Some \<lparr>prop_key = None, prop_value = None, prop_image = Some ''nginx''\<rparr>,
          old_value = None\<rparr>]\<rparr>"]
  by simp

subsection \<open>The payload of a change row\<close>

text \<open>
  C10. A pending change of the field \<open>env_variables\<close> that is the last one filed
  under its key is rendered, when every such change has a new or an old value, as
  exactly one row under that key; the row carries the id and the type of the change,
  and its name and value are those of the new value of the change when there is one,
  of its old value otherwise. So a DELETE, which has no new value, is displayed with
  the snapshot of the value it removes. Conversely every row that carries a change id
  has the payload of a change with that id, read in the same way.
\<close>

theorem change_row_payload:
  assumes "env_changes s = pre @ ch # post"
    and "\<forall>d\<in>set post. change_key d \<noteq> change_key ch"
    and "\<forall>c\<in>set (env_changes s). new_value c \<noteq> None \<or> old_value c \<noteq> None"
  shows "\<exists>m e. ServiceEnvVariablesPage s = Inr m \<and>
           rendered_rows s = Inr (map snd m) \<and>
           filter (\<lambda>p. fst p = change_key ch) m = [(change_key ch, e)] \<and>
           change_id e = Some (ch_id ch) \<and> change_type e = Some (ch_type ch) \<and>
           (case new_value ch of
              Some nv \<Rightarrow> name e = prop_key nv \<and> ui_value e = prop_value nv
            | None \<Rightarrow>
                (\<exists>ov. old_value ch = Some ov \<and>
                   name e = prop_key ov \<and> ui_value e = prop_value ov)) \<and>
           (\<forall>k e' cid. (k, e') \<in> set m \<and> change_id e' = Some cid \<longrightarrow>
              (\<exists>c\<in>set (unapplied_changes s).
                 ch_field c = ''env_variables'' \<and> ch_id c = cid \<and>
                 change_type e' = Some (ch_type c) \<and>
                 (case new_value c of
                    Some nv \<Rightarrow> name e' = prop_key nv \<and> ui_value e' = prop_value nv
                  | None \<Rightarrow>
                      (\<exists>ov. old_value c = Some ov \<and>
                         name e' = prop_key ov \<and> ui_value e' = prop_value ov))))"
proof -
  from assms(3) have
    "\<forall>c\<in>set (env_changes s). nullish (new_value c) (old_value c) \<noteq> None"
    by (auto simp: nullish_def split: option.splits)
  from page_returns [OF this] obtain m where m: "ServiceEnvVariablesPage s = Inr m" ..
  then have rows: "rendered_rows s = Inr (map snd m)" by (simp add: rendered_rows_def)
  from page_last_wins [OF m assms(1,2)] obtain kv where
    kv: "nullish (new_value ch) (old_value ch) = Some kv"
    and only: "filter (\<lambda>p. fst p = change_key ch) m = [(change_key ch, change_entry ch kv)]"
    by blast
  let ?e = "change_entry ch kv"
  have ids: "change_id ?e = Some (ch_id ch)" "change_type ?e = Some (ch_type ch)"
    by (simp_all add: change_entry_def)
  from kv have payload: "case new_value ch of
        Some nv \<Rightarrow> name ?e = prop_key nv \<and> ui_value ?e = prop_value nv
      | None \<Rightarrow>
          (\<exists>ov. old_value ch = Some ov \<and>
             name ?e = prop_key ov \<and> ui_value ?e = prop_value ov)"
    by (auto simp: nullish_def change_entry_def split: option.splits)
  have rev_dir: "\<forall>k e' cid. (k, e') \<in> set m \<and> change_id e' = Some cid \<longrightarrow>
      (\<exists>c\<in>set (unapplied_changes s).
         ch_field c = ''env_variables'' \<and> ch_id c = cid \<and>
         change_type e' = Some (ch_type c) \<and>
         (case new_value c of
            Some nv \<Rightarrow> name e' = prop_key nv \<and> ui_value e' = prop_value nv
          | None \<Rightarrow>
              (\<exists>ov. old_value c = Some ov \<and>
                 name e' = prop_key ov \<and> ui_value e' = prop_value ov)))"
    using rows_come_from_changes [OF m] by blast
  from m rows only ids payload rev_dir show ?thesis by blast
qed

theorem change_row_payload_witness:
  "\<exists>m e. ServiceEnvVariablesPage
       (example_service [env_A]
          [env_change ''c1'' ADD None (Some (key_value ''B'' ''x'')) None,
           env_change ''c2'' DELETE (Some ''e1'') None (Some (key_value ''A'' ''1''))]) = Inr m \<and>
     rendered_rows
       (example_service [env_A]
          [env_change ''c1'' ADD None (Some (key_value ''B'' ''x'')) None,
           env_change ''c2'' DELETE (Some ''e1'') None (Some (key_value ''A'' ''1''))]) =
       Inr (map snd m) \<and>
     filter (\<lambda>p. fst p = ''e1'') m = [(''e1'', e)] \<and>
     change_id e = Some ''c2'' \<and> change_type e = Some DELETE \<and>
     name e = Some ''A'' \<and> ui_value e = Some ''1''"
  using change_row_payload
    [of "example_service [env_A]
          [env_change ''c1'' ADD None (Some (key_value ''B'' ''x'')) None,
           env_change ''c2'' DELETE (Some ''e1'') None (Some (key_value ''A'' ''1''))]"
      "[env_change ''c1'' ADD None (Some (key_value ''B'' ''x'')) None]"
      "env_change ''c2'' DELETE (Some ''e1'') None (Some (key_value ''A'' ''1''))"
      "[]"]
  by (simp add: env_changes_def change_key_def) blast

end
